theory Spec2Isabelle
  imports Complex_Main "HOL-Library.Multiset" "HOL-Library.Product_Lexorder"
begin

section \<open>The puzzle board (frontend/src/App.js)\<close>

text \<open>
  The React component keeps the board in state hooks: \<^verbatim>\<open>grid\<close>, \<^verbatim>\<open>moves\<close>,
  \<^verbatim>\<open>selectedSquare\<close>, \<^verbatim>\<open>gameWon\<close> and \<^verbatim>\<open>currentUser\<close>. Every handler runs to
  its first \<^verbatim>\<open>await\<close> before the next click is delivered, so a handler is a function
  from the state before the click to the state after it.

  \<^item> \<^verbatim>\<open>selectedSquare\<close> is \<^verbatim>\<open>null\<close> or an index: an option.
  \<^item> \<^verbatim>\<open>currentUser\<close> is \<^verbatim>\<open>null\<close> or a user object; the board only tests whether it
    is set, so it is a boolean here.
  \<^item> \<^verbatim>\<open>submitted\<close> is not a hook: it records, oldest first, the argument of every
    call \<^verbatim>\<open>submitScore(finalMoves)\<close> the board makes (the POST to \<^verbatim>\<open>/api/scores\<close>).
  \<^item> The message hook \<^verbatim>\<open>submitSuccess\<close> is display text and is left out.
  \<^item> Cell values and the move counter are JavaScript numbers that only ever hold small
    non-negative integers; they are natural numbers here.
\<close>

record game =
  grid :: "nat list"
  moves :: nat
  selectedSquare :: "nat option"
  gameWon :: bool
  currentUser :: bool
  submitted :: "nat list"

definition initialGrid :: "nat list" where
  "initialGrid = [3, 6, 4, 2, 5, 8, 1, 7, 9]"

definition targetGrid :: "nat list" where
  "targetGrid = [1, 2, 3, 4, 5, 6, 7, 8, 9]"

text \<open>The values of the hooks when the component is mounted.\<close>

definition initialState :: game where
  "initialState =
     \<lparr>grid = initialGrid, moves = 0, selectedSquare = None, gameWon = False,
      currentUser = False, submitted = []\<rparr>"

text \<open>\<^verbatim>\<open>setCurrentUser\<close>: registration sets the user, \<^verbatim>\<open>logout\<close> clears it.\<close>

definition setCurrentUser :: "bool \<Rightarrow> game \<Rightarrow> game" where
  "setCurrentUser u s = s\<lparr>currentUser := u\<rparr>"

definition isAdjacent :: "nat \<Rightarrow> nat \<Rightarrow> bool" where
  "isAdjacent index1 index2 =
     (let row1 = index1 div 3; col1 = index1 mod 3;
          row2 = index2 div 3; col2 = index2 mod 3
      in (\<bar>int row1 - int row2\<bar> = 1 \<and> col1 = col2) \<or>
         (\<bar>int col1 - int col2\<bar> = 1 \<and> row1 = row2))"

text \<open>
  \<^verbatim>\<open>handleSquareClick(index)\<close>. The handler is attached to the nine buttons rendered by
  \<^verbatim>\<open>grid.map((number, index) => ...)\<close>, so \<open>index\<close> is below the length of the grid. The
  destructuring swap reads both cells first and then writes them. (For an index outside
  the array JavaScript would read \<^verbatim>\<open>undefined\<close> and extend the array; no button passes
  such an index and the theorems below are stated for indices below 9.)
  \<^verbatim>\<open>JSON.stringify(newGrid) === JSON.stringify(targetGrid)\<close> compares two arrays of
  integers, which is equality of the lists.
\<close>

definition handleSquareClick :: "nat \<Rightarrow> game \<Rightarrow> game" where
  "handleSquareClick index s =
     (if gameWon s then s
      else case selectedSquare s of
        None \<Rightarrow> s\<lparr>selectedSquare := Some index\<rparr>
      | Some sel \<Rightarrow>
          if sel = index then s\<lparr>selectedSquare := None\<rparr>
          else if isAdjacent sel index then
            (let newGrid = (grid s)[sel := grid s ! index, index := grid s ! sel];
                 s' = s\<lparr>grid := newGrid, moves := moves s + 1, selectedSquare := None\<rparr>
             in if newGrid = targetGrid
                then s'\<lparr>gameWon := True,
                        submitted := (if currentUser s then submitted s @ [moves s + 1]
                                      else submitted s)\<rparr>
                else s')
          else s\<lparr>selectedSquare := Some index\<rparr>)"

definition resetGame :: "game \<Rightarrow> game" where
  "resetGame s = s\<lparr>grid := initialGrid, moves := 0, selectedSquare := None, gameWon := False\<rparr>"

text \<open>A run of clicks, first click first.\<close>

definition clicks :: "nat list \<Rightarrow> game \<Rightarrow> game" where
  "clicks is s = fold handleSquareClick is s"

text \<open>
  The states the board can be in: the mounted state, and whatever a click on one of the
  nine buttons, the reset button, or a registration or logout leads to.
\<close>

inductive reachable :: "game \<Rightarrow> bool" where
  r_init: "reachable initialState"
| r_click: "reachable s \<Longrightarrow> index < 9 \<Longrightarrow> reachable (handleSquareClick index s)"
| r_reset: "reachable s \<Longrightarrow> reachable (resetGame s)"
| r_user: "reachable s \<Longrightarrow> reachable (setCurrentUser u s)"


text \<open>
  A shortest solution of the initial grid, as clicks: ten swaps of neighbouring cells,
  each a click on the first cell followed by a click on the second.
\<close>

definition solvingClicks :: "nat list" where
  "solvingClicks = [0, 1, 0, 3, 1, 2, 0, 1, 3, 4, 3, 6, 0, 3, 4, 5, 6, 7, 4, 7]"

text \<open>
  What ties the flag and the submissions of a game to its grid: the game is won exactly
  when the grid is the target, and the log holds the move count of the win if a user was
  set then, and nothing else.
\<close>

definition win_inv :: "game \<Rightarrow> bool" where
  "win_inv s \<longleftrightarrow>
     (gameWon s \<longleftrightarrow> grid s = targetGrid) \<and>
     submitted s = (if gameWon s \<and> currentUser s then [moves s] else [])"

section \<open>The score ledger and the leaderboard (backend/server.js)\<close>

text \<open>
  The store holds the two Mongoose collections. A user is found by its \<^verbatim>\<open>_id\<close>, which
  the store keeps unique, so the users are a map from ids; the scores are the list of
  documents in the order the store returns them (the schema puts no unique index on
  \<^verbatim>\<open>userId\<close>). A \<^verbatim>\<open>Date\<close> is its number of milliseconds since the epoch. \<^verbatim>\<open>moves\<close> is a
  schema \<^verbatim>\<open>Number\<close> read from the JSON body: a rational here, so that a body such as
  \<^verbatim>\<open>{"moves": 1.5}\<close> is an input of the model as it is of the server. The fields
  \<^verbatim>\<open>_id\<close>, \<^verbatim>\<open>createdAt\<close> and \<^verbatim>\<open>updatedAt\<close>, which the store maintains and no handler below
  reads, are left out. The field of the score is called \<open>score_moves\<close> because the name
  \<open>moves\<close> is the board's counter above.
\<close>

type_synonym objectId = nat
type_synonym date = int

record user =
  user_name :: string
  user_email :: string

record score =
  userId :: objectId
  score_moves :: rat
  completedAt :: date
  gameConfiguration :: "nat list"

record db =
  users :: "objectId \<rightharpoonup> user"
  scores :: "score list"

datatype error = ValidationError | NotFoundError | InternalError

subsection \<open>POST /api/scores\<close>

record scoreResult =
  status :: nat
  message :: string
  res_moves :: rat
  res_completedAt :: date
  improved :: bool

text \<open>\<^verbatim>\<open>Score.findOne({ userId })\<close>: the first document of the player.\<close>

definition findOne :: "objectId \<Rightarrow> score list \<Rightarrow> score option" where
  "findOne uid ds = find (\<lambda>d. userId d = uid) ds"

text \<open>
  \<^verbatim>\<open>existingScore.save()\<close> after the handler has assigned to the document that
  \<^verbatim>\<open>findOne\<close> returned: the first document of the player is replaced.
\<close>

fun saveExisting :: "objectId \<Rightarrow> (score \<Rightarrow> score) \<Rightarrow> score list \<Rightarrow> score list" where
  "saveExisting uid f [] = []"
| "saveExisting uid f (d # ds) =
     (if userId d = uid then f d # ds else d # saveExisting uid f ds)"

text \<open>
  The handler, after \<^verbatim>\<open>authenticateToken\<close> has put the player's id into
  \<^verbatim>\<open>req.user.userId\<close>. \<open>now\<close> is the clock (\<^verbatim>\<open>new Date()\<close>, and the schema default
  \<^verbatim>\<open>Date.now\<close>). For a number, \<^verbatim>\<open>!moves\<close> holds of zero. The responses are 400, 404,
  200 and 201 as in the source.
\<close>

definition submitScore ::
    "date \<Rightarrow> objectId \<Rightarrow> rat \<Rightarrow> db \<Rightarrow> (error + scoreResult) \<times> db" where
  "submitScore now uid mv st =
     (if mv = 0 \<or> mv < 1 then (Inl ValidationError, st)
      else case users st uid of
        None \<Rightarrow> (Inl NotFoundError, st)
      | Some usr \<Rightarrow>
          (case findOne uid (scores st) of
             Some existingScore \<Rightarrow>
               if mv < score_moves existingScore then
                 (Inr \<lparr>status = 200, message = ''New best score updated!'',
                       res_moves = mv, res_completedAt = now, improved = True\<rparr>,
                  st\<lparr>scores :=
                       saveExisting uid (\<lambda>d. d\<lparr>score_moves := mv, completedAt := now\<rparr>)
                         (scores st)\<rparr>)
               else
                 (Inr \<lparr>status = 200, message = ''Score submitted, but not your best'',
                       res_moves = score_moves existingScore,
                       res_completedAt = completedAt existingScore, improved = False\<rparr>,
                  st)
           | None \<Rightarrow>
               (Inr \<lparr>status = 201, message = ''Score submitted successfully!'',
                     res_moves = mv, res_completedAt = now, improved = True\<rparr>,
                st\<lparr>scores := scores st @
                     [\<lparr>userId = uid, score_moves = mv, completedAt = now,
                       gameConfiguration = [3, 6, 4, 2, 5, 8, 1, 7, 9]\<rparr>]\<rparr>)))"

subsection \<open>GET /api/leaderboard\<close>

text \<open>
  \<^verbatim>\<open>parseInt\<close> with no radix, as ECMAScript defines it: leading white space is dropped,
  then a sign, then the prefix \<^verbatim>\<open>0x\<close> or \<^verbatim>\<open>0X\<close> selects radix 16, and the longest run of
  digits is read; with no digit the result is \<^verbatim>\<open>NaN\<close>, here \<open>None\<close>. (Only the ASCII
  white space is modelled, and the result is the exact integer, not its double.)
\<close>

definition isWhiteSpace :: "char \<Rightarrow> bool" where
  "isWhiteSpace c \<longleftrightarrow> (of_char c :: nat) \<in> set [32, 9, 10, 11, 12, 13]"

definition digitValue :: "char \<Rightarrow> nat option" where
  "digitValue c =
     (let n = (of_char c :: nat)
      in if 48 \<le> n \<and> n \<le> 57 then Some (n - 48)
         else if 97 \<le> n \<and> n \<le> 122 then Some (n - 87)
         else if 65 \<le> n \<and> n \<le> 90 then Some (n - 55)
         else None)"

definition isDigit :: "nat \<Rightarrow> char \<Rightarrow> bool" where
  "isDigit R c = (case digitValue c of None \<Rightarrow> False | Some v \<Rightarrow> v < R)"

definition parseInt :: "string \<Rightarrow> int option" where
  "parseInt str =
     (let S = dropWhile isWhiteSpace str;
          sign = (if take 1 S = ''-'' then - 1 else 1);
          S = (if take 1 S = ''+'' \<or> take 1 S = ''-'' then drop 1 S else S);
          hex = (take 2 S = ''0x'' \<or> take 2 S = ''0X'');
          R = (if hex then 16 else 10);
          S = (if hex then drop 2 S else S);
          Z = takeWhile (isDigit R) S
      in if Z = [] then None
         else Some (sign *
                int (foldl (\<lambda>a c. a * R + (case digitValue c of None \<Rightarrow> 0 | Some v \<Rightarrow> v)) 0 Z)))"

text \<open>
  \<^verbatim>\<open>parseInt(req.query.limit) || 50\<close> and \<^verbatim>\<open>parseInt(req.query.page) || 1\<close>. A query
  parameter is absent (\<^verbatim>\<open>undefined\<close>, which \<^verbatim>\<open>parseInt\<close> turns into \<^verbatim>\<open>NaN\<close>) or a
  string. \<^verbatim>\<open>||\<close> takes its right operand when the left one is \<^verbatim>\<open>NaN\<close> or zero.
\<close>

definition parseQuery :: "string option \<Rightarrow> int option" where
  "parseQuery q = (case q of None \<Rightarrow> None | Some str \<Rightarrow> parseInt str)"

definition orDefault :: "int option \<Rightarrow> int \<Rightarrow> int" where
  "orDefault x d = (case x of None \<Rightarrow> d | Some n \<Rightarrow> if n = 0 then d else n)"

definition limitParam :: "string option \<Rightarrow> int" where
  "limitParam q = orDefault (parseQuery q) 50"

definition pageParam :: "string option \<Rightarrow> int" where
  "pageParam q = orDefault (parseQuery q) 1"

text \<open>
  The aggregation pipeline. \<^verbatim>\<open>$lookup\<close> and \<^verbatim>\<open>$unwind\<close> pair every score with its user
  and drop a score whose user is not in the store. \<^verbatim>\<open>$sort\<close> orders by \<^verbatim>\<open>moves\<close> and
  then \<^verbatim>\<open>completedAt\<close>, both ascending; the store does not say how it orders documents
  equal in both, and the model keeps them in the order of the collection. The store
  rejects a negative \<^verbatim>\<open>$skip\<close> and a \<^verbatim>\<open>$limit\<close> that is not positive; the handler's
  \<^verbatim>\<open>catch\<close> turns that into the response 500.
\<close>

definition lookupUnwind :: "db \<Rightarrow> (score \<times> user) list" where
  "lookupUnwind st =
     List.map_filter (\<lambda>d. map_option (Pair d) (users st (userId d))) (scores st)"

definition sortKey :: "score \<Rightarrow> rat \<times> date" where
  "sortKey d = (score_moves d, completedAt d)"

definition sorted_rows :: "db \<Rightarrow> (score \<times> user) list" where
  "sorted_rows st = sort_key (\<lambda>r. sortKey (fst r)) (lookupUnwind st)"

definition aggregate :: "db \<Rightarrow> int \<Rightarrow> int \<Rightarrow> error + (score \<times> user) list" where
  "aggregate st skip limit =
     (if skip < 0 \<or> limit \<le> 0 then Inl InternalError
      else Inr (take (nat limit) (drop (nat skip) (sorted_rows st))))"

record entry =
  rank :: int
  name :: string
  email :: string
  entry_moves :: rat
  entry_completedAt :: date

record pagination =
  currentPage :: int
  totalPages :: int
  totalScores :: nat
  hasNext :: bool
  hasPrev :: bool

text \<open>
  One row of \<^verbatim>\<open>rankedLeaderboard\<close>. (The field \<^verbatim>\<open>date\<close>, the calendar day of
  \<^verbatim>\<open>completedAt\<close>, is left out.)
\<close>

definition rankedEntry :: "int \<Rightarrow> nat \<times> score \<times> user \<Rightarrow> entry" where
  "rankedEntry skip r =
     (case r of (index, d, u) \<Rightarrow>
        \<lparr>rank = skip + int index + 1, name = user_name u, email = user_email u,
         entry_moves = score_moves d, entry_completedAt = completedAt d\<rparr>)"

definition getLeaderboard :: "db \<Rightarrow> int \<Rightarrow> int \<Rightarrow> error + entry list \<times> pagination" where
  "getLeaderboard st limit page =
     (let skip = (page - 1) * limit
      in case aggregate st skip limit of
           Inl e \<Rightarrow> Inl InternalError
         | Inr leaderboard \<Rightarrow>
             (let rankedLeaderboard = map (rankedEntry skip) (enumerate 0 leaderboard);
                  total = length (scores st)
              in Inr (rankedLeaderboard,
                      \<lparr>currentPage = page,
                       totalPages = \<lceil>rat_of_nat total / rat_of_int limit\<rceil>,
                       totalScores = total,
                       hasNext = (page * limit < int total),
                       hasPrev = (page > 1)\<rparr>)))"

definition leaderboardRoute ::
    "db \<Rightarrow> string option \<Rightarrow> string option \<Rightarrow> error + entry list \<times> pagination" where
  "leaderboardRoute st qlimit qpage = getLeaderboard st (limitParam qlimit) (pageParam qpage)"

subsection \<open>GET /api/user/score\<close>

datatype userScore = NoScore | HasScore rat date int

text \<open>\<open>HasScore\<close> carries \<^verbatim>\<open>moves\<close>, \<^verbatim>\<open>completedAt\<close> and \<^verbatim>\<open>rank\<close>.\<close>

definition better :: "score \<Rightarrow> score \<Rightarrow> bool" where
  "better sc d \<longleftrightarrow>
     score_moves d < score_moves sc \<or>
     (score_moves d = score_moves sc \<and> completedAt d < completedAt sc)"

definition getPlayerRank :: "db \<Rightarrow> objectId \<Rightarrow> userScore" where
  "getPlayerRank st uid =
     (case findOne uid (scores st) of
        None \<Rightarrow> NoScore
      | Some sc \<Rightarrow>
          (let betterScores = length (filter (better sc) (scores st));
               rank = int betterScores + 1
           in HasScore (score_moves sc) (completedAt sc) rank))"

subsection \<open>Stores the handlers can produce\<close>

text \<open>
  No handler deletes a user, and \<^verbatim>\<open>POST /api/scores\<close> writes a score only after it has
  found the user: in the stores the server produces every score has its user. The
  example store has three players, two of them tied on moves.
\<close>

definition has_users :: "db \<Rightarrow> bool" where
  "has_users st \<longleftrightarrow> (\<forall>d\<in>set (scores st). users st (userId d) \<noteq> None)"

definition emptyDb :: db where
  "emptyDb = \<lparr>users = Map.empty, scores = []\<rparr>"

definition exampleDb :: db where
  "exampleDb =
     \<lparr>users = [1 \<mapsto> \<lparr>user_name = ''Alice Kumar'', user_email = ''cs22b1001@iiitdm.ac.in''\<rparr>,
               2 \<mapsto> \<lparr>user_name = ''Bob Sharma'', user_email = ''me21a2002@iiitdm.ac.in''\<rparr>,
               3 \<mapsto> \<lparr>user_name = ''Carol Singh'', user_email = ''ec23b3003@iiitdm.ac.in''\<rparr>,
               4 \<mapsto> \<lparr>user_name = ''David Patel'', user_email = ''cs22a4004@iiitdm.ac.in''\<rparr>],
      scores =
        [\<lparr>userId = 1, score_moves = 20, completedAt = 1000,
          gameConfiguration = [3, 6, 4, 2, 5, 8, 1, 7, 9]\<rparr>,
         \<lparr>userId = 2, score_moves = 10, completedAt = 3000,
          gameConfiguration = [3, 6, 4, 2, 5, 8, 1, 7, 9]\<rparr>,
         \<lparr>userId = 3, score_moves = 10, completedAt = 2000,
          gameConfiguration = [3, 6, 4, 2, 5, 8, 1, 7, 9]\<rparr>]\<rparr>"

text \<open>Two players who finished in the same number of moves at the same millisecond.\<close>

definition tiedDb :: db where
  "tiedDb =
     \<lparr>users = [1 \<mapsto> \<lparr>user_name = ''Alice Kumar'', user_email = ''cs22b1001@iiitdm.ac.in''\<rparr>,
               2 \<mapsto> \<lparr>user_name = ''Bob Sharma'', user_email = ''me21a2002@iiitdm.ac.in''\<rparr>],
      scores =
        [\<lparr>userId = 1, score_moves = 10, completedAt = 1000,
          gameConfiguration = [3, 6, 4, 2, 5, 8, 1, 7, 9]\<rparr>,
         \<lparr>userId = 2, score_moves = 10, completedAt = 1000,
          gameConfiguration = [3, 6, 4, 2, 5, 8, 1, 7, 9]\<rparr>]\<rparr>"

subsection \<open>The ranking in the words of the specification\<close>

text \<open>
  The order of the leaderboard: fewer moves first, and on equal moves the earlier
  completion first.
\<close>

definition inOrder :: "score \<Rightarrow> score \<Rightarrow> bool" where
  "inOrder a b \<longleftrightarrow>
     score_moves a < score_moves b \<or>
     (score_moves a = score_moves b \<and> completedAt a \<le> completedAt b)"

text \<open>
  The entry of the row at position \<open>i\<close> (counted from 0) of the whole ordered
  collection, with that position plus one as its rank.
\<close>

definition globalEntry :: "db \<Rightarrow> nat \<Rightarrow> entry" where
  "globalEntry st i =
     (case sorted_rows st ! i of (d, u) \<Rightarrow>
        \<lparr>rank = int i + 1, name = user_name u, email = user_email u,
         entry_moves = score_moves d, entry_completedAt = completedAt d\<rparr>)"

text \<open>The player's score is the only one with its moves and its time of completion.\<close>

definition untied :: "db \<Rightarrow> score \<Rightarrow> bool" where
  "untied st sc \<longleftrightarrow>
     length (filter (\<lambda>d. score_moves d = score_moves sc \<and> completedAt d = completedAt sc)
               (scores st)) = 1"

section \<open>Properties of the puzzle board\<close>

lemmas puzzle_defs = clicks_def initialState_def setCurrentUser_def handleSquareClick_def
  isAdjacent_def initialGrid_def targetGrid_def resetGame_def

lemma isAdjacent_manhattan:
  "isAdjacent i j \<longleftrightarrow> \<bar>int (i div 3) - int (j div 3)\<bar> + \<bar>int (i mod 3) - int (j mod 3)\<bar> = 1"
  unfolding isAdjacent_def Let_def by (auto simp: abs_if split: if_splits) 

lemma clicks_Nil [simp]: "clicks [] s = s"
  by (simp add: clicks_def)

lemma clicks_Cons [simp]: "clicks (i # is) s = clicks is (handleSquareClick i s)"
  by (simp add: clicks_def)

lemma clicks_snoc: "clicks (is @ [i]) s = handleSquareClick i (clicks is s)"
  by (simp add: clicks_def)

lemma click_won: "gameWon s \<Longrightarrow> handleSquareClick i s = s"
  by (simp add: handleSquareClick_def)

lemma clicks_won: "gameWon s \<Longrightarrow> clicks is s = s"
  by (induction "is") (simp_all add: click_won)

lemma click_moves:
  "moves (handleSquareClick i s) =
     (if \<not> gameWon s \<and> (\<exists>sel. selectedSquare s = Some sel \<and> sel \<noteq> i \<and> isAdjacent sel i)
      then moves s + 1 else moves s)"
  by (auto simp: handleSquareClick_def Let_def split: option.splits)

lemma click_user: "currentUser (handleSquareClick i s) = currentUser s"
  by (auto simp: handleSquareClick_def Let_def split: option.splits)

subsection \<open>Swapping two neighbours\<close>

text \<open>
  Claim C3. The board has three states: no cell selected, one cell selected, and won;
  the won board is the terminal state of claim C8. In the state with no cell selected
  (\<open>selectedSquare\<close> is \<open>None\<close> and the game is not won), for two different cells
  \<open>i\<close> and \<open>j\<close> of the board that are neighbours in a row or in a column (the
  distance in rows plus the distance in columns is 1), a click on \<open>i\<close> followed by a
  click on \<open>j\<close> exchanges the two cells, adds exactly one move and clears the
  selection.
\<close>

theorem selectOrSwap_adjacent_swaps:
  assumes "\<not> gameWon s" and "selectedSquare s = None" and "length (grid s) = 9"
    and "i < 9" and "j < 9" and "i \<noteq> j"
    and "\<bar>int (i div 3) - int (j div 3)\<bar> + \<bar>int (i mod 3) - int (j mod 3)\<bar> = 1"
  shows "grid (clicks [i, j] s) = (grid s)[i := grid s ! j, j := grid s ! i] \<and>
         grid (clicks [i, j] s) ! i = grid s ! j \<and>
         grid (clicks [i, j] s) ! j = grid s ! i \<and>
         moves (clicks [i, j] s) = moves s + 1 \<and>
         selectedSquare (clicks [i, j] s) = None"
proof -
  have adj: "isAdjacent i j"
    using assms(7) by (simp add: isAdjacent_manhattan)
  have g: "grid (clicks [i, j] s) = (grid s)[i := grid s ! j, j := grid s ! i]"
    using assms(1,2,6) adj by (simp add: handleSquareClick_def Let_def)
  have m: "moves (clicks [i, j] s) = moves s + 1"
    using assms(1,2,6) adj by (simp add: handleSquareClick_def Let_def)
  have sel: "selectedSquare (clicks [i, j] s) = None"
    using assms(1,2,6) adj by (simp add: handleSquareClick_def Let_def)
  from assms(3-6) have "(grid s)[i := grid s ! j, j := grid s ! i] ! i = grid s ! j"
    and "(grid s)[i := grid s ! j, j := grid s ! i] ! j = grid s ! i"
    by simp_all
  with g m sel show ?thesis by simp
qed

text \<open>The first swap of the solution, on the mounted board.\<close>

theorem selectOrSwap_adjacent_swaps_witness:
  "grid (clicks [0, 1] initialState) = [6, 3, 4, 2, 5, 8, 1, 7, 9] \<and>
   moves (clicks [0, 1] initialState) = 1 \<and>
   selectedSquare (clicks [0, 1] initialState) = None"
  using selectOrSwap_adjacent_swaps [of initialState 0 1]
  by (simp add: initialState_def initialGrid_def)

subsection \<open>Winning\<close>

text \<open>
  Claim C7 as it is written has the final move count sent once at the win. The handler
  sends it only under \<^verbatim>\<open>if (currentUser)\<close>: played from the mounted board with no user
  registered, the solution wins in ten moves and nothing is submitted.
\<close>

theorem win_without_user_counterexample:
  "gameWon (clicks solvingClicks initialState) \<and>
   grid (clicks solvingClicks initialState) = targetGrid \<and>
   moves (clicks solvingClicks initialState) = 10 \<and>
   submitted (clicks solvingClicks initialState) = []"
  by (simp add: solvingClicks_def puzzle_defs)

lemma click_inv: "win_inv s \<Longrightarrow> win_inv (handleSquareClick i s)"
  unfolding win_inv_def
  by (auto simp: handleSquareClick_def Let_def split: option.splits)

lemma clicks_inv: "win_inv s \<Longrightarrow> win_inv (clicks is s)"
  by (induction "is" arbitrary: s) (simp_all add: click_inv)

lemma clicks_user: "currentUser (clicks is s) = currentUser s"
  by (induction "is" arbitrary: s) (simp_all add: click_user)

lemma init_inv: "win_inv (setCurrentUser u initialState)"
  by (simp add: win_inv_def setCurrentUser_def initialState_def initialGrid_def targetGrid_def)

lemma click_wins:
  assumes "\<not> gameWon s" and "gameWon (handleSquareClick i s)"
  shows "\<exists>sel. selectedSquare s = Some sel \<and> sel \<noteq> i \<and> isAdjacent sel i \<and>
           (grid s)[sel := grid s ! i, i := grid s ! sel] = targetGrid \<and>
           grid (handleSquareClick i s) = targetGrid \<and>
           moves (handleSquareClick i s) = moves s + 1 \<and>
           submitted (handleSquareClick i s) =
             (if currentUser s then submitted s @ [moves s + 1] else submitted s)"
  using assms by (auto simp: handleSquareClick_def Let_def split: option.splits if_splits)

text \<open>
  Claim C7, with the registration taken into account. Take any run of clicks on the
  nine buttons from the initial grid, with a user registered (\<open>u\<close> true) or not, and
  one more click. Before and after that click the game is won exactly when the grid is
  the target, so the flag is never set earlier than the swap that completes the target;
  the click that sets it is a swap of the selected cell with a neighbour and is counted
  as a move; and the submissions are: none while the game is not won, none at all when no
  user is registered, and otherwise the one final move count, which includes the winning
  swap.
\<close>

theorem solved_exactly_at_target:
  assumes "\<forall>i\<in>set is. i < 9" and "i < 9"
    and "s = clicks is (setCurrentUser u initialState)"
    and "s' = handleSquareClick i s"
  shows "(gameWon s \<longleftrightarrow> grid s = targetGrid) \<and>
         submitted s = (if gameWon s \<and> u then [moves s] else []) \<and>
         (gameWon s' \<longleftrightarrow> grid s' = targetGrid) \<and>
         submitted s' = (if gameWon s' \<and> u then [moves s'] else []) \<and>
         (\<not> gameWon s \<and> gameWon s' \<longrightarrow>
            (\<exists>sel. selectedSquare s = Some sel \<and> isAdjacent sel i \<and>
               grid s' = (grid s)[sel := grid s ! i, i := grid s ! sel]) \<and>
            moves s' = moves s + 1)"
proof -
  have u: "currentUser s = u"
    by (simp add: assms(3) clicks_user setCurrentUser_def)
  have I: "win_inv s"
    unfolding assms(3) by (rule clicks_inv [OF init_inv])
  then have I': "win_inv s'"
    unfolding assms(4) by (rule click_inv)
  have u': "currentUser s' = u"
    by (simp add: assms(4) click_user u)
  have step: "\<not> gameWon s \<and> gameWon s' \<longrightarrow>
            (\<exists>sel. selectedSquare s = Some sel \<and> isAdjacent sel i \<and>
               grid s' = (grid s)[sel := grid s ! i, i := grid s ! sel]) \<and>
            moves s' = moves s + 1"
    using click_wins [of s i] by (auto simp: assms(4))
  from I I' u u' step show ?thesis
    unfolding win_inv_def by simp
qed

text \<open>The solution played by a registered user: won at the last click, ten moves sent once.\<close>

theorem solved_exactly_at_target_witness:
  "list_all (\<lambda>i. i < 9) solvingClicks \<and>
   \<not> gameWon (clicks (butlast solvingClicks) (setCurrentUser True initialState)) \<and>
   submitted (clicks (butlast solvingClicks) (setCurrentUser True initialState)) = [] \<and>
   gameWon (clicks solvingClicks (setCurrentUser True initialState)) \<and>
   grid (clicks solvingClicks (setCurrentUser True initialState)) = targetGrid \<and>
   submitted (clicks solvingClicks (setCurrentUser True initialState)) = [10]"
  using solved_exactly_at_target [of "butlast solvingClicks" "last solvingClicks" 
     "clicks (butlast solvingClicks) (setCurrentUser True initialState)" True
     "clicks solvingClicks (setCurrentUser True initialState)"]
  by (simp add: solvingClicks_def puzzle_defs)

text \<open>
  Claim C8. In a won game a click, and so every run of clicks, leaves the whole state
  as it is, in particular the grid, the move count and the flag; the reset button gives
  the mounted board again: the initial grid, no moves, no selection, not won.
\<close>

theorem solved_absorbs_clicks:
  assumes "gameWon s"
  shows "handleSquareClick i s = s \<and> clicks is s = s \<and>
         resetGame s = initialState\<lparr>currentUser := currentUser s, submitted := submitted s\<rparr> \<and>
         grid (resetGame s) = initialGrid \<and> moves (resetGame s) = 0 \<and>
         selectedSquare (resetGame s) = None \<and> \<not> gameWon (resetGame s)"
  using assms by (simp add: click_won clicks_won resetGame_def initialState_def)

text \<open>The won board after the solution, clicked five more times, and then reset.\<close>

theorem solved_absorbs_clicks_witness:
  "gameWon (clicks solvingClicks initialState) \<and>
   clicks [4, 5, 5, 8, 0] (clicks solvingClicks initialState) = clicks solvingClicks initialState \<and>
   resetGame (clicks solvingClicks initialState) = initialState"
  using solved_absorbs_clicks [of "clicks solvingClicks initialState" 0 "[4, 5, 5, 8, 0]"]
  by (simp add: solvingClicks_def puzzle_defs)

subsection \<open>The grid is a permutation\<close>

lemma click_perm:
  assumes "mset (grid s) = mset targetGrid" and "\<forall>j. selectedSquare s = Some j \<longrightarrow> j < 9"
    and "i < 9"
  shows "mset (grid (handleSquareClick i s)) = mset targetGrid \<and>
         (\<forall>j. selectedSquare (handleSquareClick i s) = Some j \<longrightarrow> j < 9)"
proof -
  have len: "length (grid s) = 9"
    using assms(1) mset_eq_length [of "grid s" targetGrid] by (simp add: targetGrid_def)
  have sw: "mset ((grid s)[sel := grid s ! i, i := grid s ! sel]) = mset (grid s)"
    if "sel < 9" for sel
    using mset_swap [of i "grid s" sel] that assms(3) len by simp
  show ?thesis
    using assms sw by (auto simp: handleSquareClick_def Let_def split: option.splits)
qed

lemma reachable_inv:
  "reachable s \<Longrightarrow>
     mset (grid s) = mset targetGrid \<and> (\<forall>j. selectedSquare s = Some j \<longrightarrow> j < 9)"
proof (induction rule: reachable.induct)
  case r_init
  show ?case
    by (simp add: initialState_def initialGrid_def targetGrid_def)
next
  case (r_click s index)
  then show ?case using click_perm [of s index] by blast
next
  case (r_reset s)
  show ?case
    by (simp add: resetGame_def initialGrid_def targetGrid_def)
next
  case (r_user s u)
  then show ?case by (simp add: setCurrentUser_def)
qed

text \<open>
  Claim C9. In every state the board can reach by clicks and resets (and registrations)
  the grid holds the values 1 to 9, each once.
\<close>

theorem reachable_grid_permutation:
  assumes "reachable s"
  shows "mset (grid s) = mset [1, 2, 3, 4, 5, 6, 7, 8, 9] \<and>
         length (grid s) = 9 \<and> distinct (grid s) \<and> set (grid s) = {1..9}"
proof -
  have m: "mset (grid s) = mset targetGrid"
    using reachable_inv [OF assms] by simp
  have d: "distinct targetGrid" and st: "set targetGrid = {1..9}"
    by (auto simp: targetGrid_def)
  from m have "length (grid s) = length targetGrid" "set (grid s) = set targetGrid"
    "distinct (grid s) = distinct targetGrid"
    by (rule mset_eq_length, rule mset_eq_setD, rule mset_eq_imp_distinct_iff)
  with m d st show ?thesis by (simp add: targetGrid_def)
qed

text \<open>A state reached by five clicks, and its reset.\<close>

theorem reachable_grid_permutation_witness:
  "reachable (resetGame (clicks [0, 1, 4, 4, 8] initialState)) \<and>
   reachable (clicks [0, 1, 4, 4, 8] initialState) \<and>
   mset (grid (clicks [0, 1, 4, 4, 8] initialState)) = mset [1, 2, 3, 4, 5, 6, 7, 8, 9] \<and>
   grid (clicks [0, 1, 4, 4, 8] initialState) = [6, 3, 4, 2, 5, 8, 1, 7, 9]"
proof -
  have r: "reachable (clicks [0, 1, 4, 4, 8] initialState)"
    by (simp add: reachable.intros)
  have g: "grid (clicks [0, 1, 4, 4, 8] initialState) = [6, 3, 4, 2, 5, 8, 1, 7, 9]"
    by (simp add: puzzle_defs)
  from r g reachable_grid_permutation [OF r] show ?thesis
    by (simp add: reachable.intros)
qed

subsection \<open>The move count\<close>

lemma clicks_moves_mono: "moves s \<le> moves (clicks is s)"
proof (induction "is" arbitrary: s)
  case Nil
  show ?case by simp
next
  case (Cons i "is")
  have "moves s \<le> moves (handleSquareClick i s)"
    by (simp add: click_moves)
  also have "\<dots> \<le> moves (clicks is (handleSquareClick i s))"
    by (rule Cons.IH)
  finally show ?case by simp
qed

text \<open>
  Claim C10. A click adds one move when the game is not won and the clicked cell is a
  neighbour of the selected one, and leaves the count alone in every other case
  (selecting, deselecting, selecting another cell, a click after the win); so the count
  never goes down along a run of clicks. The reset button sets it to 0.
\<close>

theorem moveCount_monotone:
  "moves (handleSquareClick i s) =
     (if \<not> gameWon s \<and> (\<exists>sel. selectedSquare s = Some sel \<and> sel \<noteq> i \<and> isAdjacent sel i)
      then moves s + 1 else moves s) \<and>
   moves s \<le> moves (handleSquareClick i s) \<and>
   moves (handleSquareClick i s) \<le> moves s + 1 \<and>
   moves s \<le> moves (clicks is s) \<and>
   moves (resetGame s) = 0"
  by (simp add: click_moves clicks_moves_mono resetGame_def)

text \<open>A swap, a change of selection, and a reset after one move.\<close>

theorem moveCount_monotone_witness:
  "moves (handleSquareClick 1 (clicks [0] initialState)) = 1 \<and>
   moves (handleSquareClick 4 (clicks [0] initialState)) = 0 \<and>
   moves (resetGame (clicks [0, 1] initialState)) = 0"
  using moveCount_monotone [of 1 "clicks [0] initialState" "[]"]
    moveCount_monotone [of 4 "clicks [0] initialState" "[]"]
    moveCount_monotone [of 0 "clicks [0, 1] initialState" "[]"]
  by (simp add: puzzle_defs)

section \<open>Properties of the ledger and the leaderboard\<close>

lemmas parse_defs = parseInt_def isWhiteSpace_def digitValue_def isDigit_def parseQuery_def
  orDefault_def limitParam_def pageParam_def

subsection \<open>Submitting a score\<close>

lemma findOne_Some:
  "findOne uid ds = Some ex \<Longrightarrow> ex \<in> set ds \<and> userId ex = uid"
  unfolding findOne_def by (auto simp: find_Some_iff)

lemma saveExisting_update:
  assumes "findOne uid ds = Some ex"
  shows "\<exists>k<length ds. ds ! k = ex \<and> (\<forall>j<k. userId (ds ! j) \<noteq> uid) \<and>
           saveExisting uid f ds = ds[k := f ex]"
  using assms
proof (induction ds)
  case Nil
  then show ?case by (simp add: findOne_def)
next
  case (Cons d ds)
  show ?case
  proof (cases "userId d = uid")
    case True
    with Cons.prems have "ex = d" by (simp add: findOne_def)
    with True have "(d # ds) ! 0 = ex \<and> (\<forall>j<0. userId ((d # ds) ! j) \<noteq> uid) \<and>
        saveExisting uid f (d # ds) = (d # ds)[0 := f ex]"
      by simp
    then show ?thesis by blast
  next
    case False
    with Cons.prems have "findOne uid ds = Some ex" by (simp add: findOne_def)
    from Cons.IH [OF this] obtain k where k: "k < length ds" "ds ! k = ex"
      "\<forall>j<k. userId (ds ! j) \<noteq> uid" "saveExisting uid f ds = ds[k := f ex]"
      by blast
    have "\<forall>j<Suc k. userId ((d # ds) ! j) \<noteq> uid"
      using False k(3) by (auto simp: less_Suc_eq_0_disj)
    with k False have "Suc k < length (d # ds) \<and> (d # ds) ! Suc k = ex \<and>
        (\<forall>j<Suc k. userId ((d # ds) ! j) \<noteq> uid) \<and>
        saveExisting uid f (d # ds) = (d # ds)[Suc k := f ex]"
      by simp
    then show ?thesis by blast
  qed
qed

lemma findOne_saveExisting:
  "findOne uid ds = Some ex \<Longrightarrow> userId (f ex) = uid \<Longrightarrow>
     findOne uid (saveExisting uid f ds) = Some (f ex)"
  by (induction ds) (auto simp: findOne_def)

lemma set_saveExisting:
  "set (saveExisting uid f ds) \<subseteq> set ds \<union> f ` {d \<in> set ds. userId d = uid}"
  by (induction ds) auto

text \<open>
  Claim C1. For a submission of at least one move by a player who is in the store:
  \<^item> with no score of the player, a score with the submitted moves and the time of the
    clock is added at the end of the collection and the answer is those moves, that time
    and \<open>improved\<close> true;
  \<^item> with a score of more moves, that document (and no other) gets the submitted moves
    and the time of the clock, and the answer is those with \<open>improved\<close> true;
  \<^item> with a score of as many or fewer moves, the store is returned as it was and the
    answer is the moves and the time of the stored score with \<open>improved\<close> false.
\<close>

theorem submitScore_cases:
  assumes "1 \<le> mv" and "users st uid = Some usr"
  shows "(findOne uid (scores st) = None \<longrightarrow>
            submitScore now uid mv st =
              (Inr \<lparr>status = 201, message = ''Score submitted successfully!'',
                    res_moves = mv, res_completedAt = now, improved = True\<rparr>,
               st\<lparr>scores := scores st @
                    [\<lparr>userId = uid, score_moves = mv, completedAt = now,
                      gameConfiguration = [3, 6, 4, 2, 5, 8, 1, 7, 9]\<rparr>]\<rparr>)) \<and>
         (\<forall>ex. findOne uid (scores st) = Some ex \<and> mv < score_moves ex \<longrightarrow>
            (\<exists>k<length (scores st). scores st ! k = ex \<and>
               submitScore now uid mv st =
                 (Inr \<lparr>status = 200, message = ''New best score updated!'',
                       res_moves = mv, res_completedAt = now, improved = True\<rparr>,
                  st\<lparr>scores := (scores st)[k := ex\<lparr>score_moves := mv, completedAt := now\<rparr>]\<rparr>)) \<and>
            findOne uid (scores (snd (submitScore now uid mv st))) =
              Some (ex\<lparr>score_moves := mv, completedAt := now\<rparr>)) \<and>
         (\<forall>ex. findOne uid (scores st) = Some ex \<and> score_moves ex \<le> mv \<longrightarrow>
            submitScore now uid mv st =
              (Inr \<lparr>status = 200, message = ''Score submitted, but not your best'',
                    res_moves = score_moves ex, res_completedAt = completedAt ex,
                    improved = False\<rparr>,
               st))"
proof (intro conjI allI impI)
  assume "findOne uid (scores st) = None"
  with assms show "submitScore now uid mv st =
              (Inr \<lparr>status = 201, message = ''Score submitted successfully!'',
                    res_moves = mv, res_completedAt = now, improved = True\<rparr>,
               st\<lparr>scores := scores st @
                    [\<lparr>userId = uid, score_moves = mv, completedAt = now,
                      gameConfiguration = [3, 6, 4, 2, 5, 8, 1, 7, 9]\<rparr>]\<rparr>)"
    by (simp add: submitScore_def)
next
  fix ex
  assume a: "findOne uid (scores st) = Some ex \<and> mv < score_moves ex"
  let ?f = "\<lambda>d. d\<lparr>score_moves := mv, completedAt := now\<rparr>"
  from a assms have r: "submitScore now uid mv st =
      (Inr \<lparr>status = 200, message = ''New best score updated!'',
            res_moves = mv, res_completedAt = now, improved = True\<rparr>,
       st\<lparr>scores := saveExisting uid ?f (scores st)\<rparr>)"
    by (simp add: submitScore_def)
  from a saveExisting_update [of uid "scores st" ex ?f]
  obtain k where k: "k < length (scores st)" "scores st ! k = ex"
    "saveExisting uid ?f (scores st) = (scores st)[k := ?f ex]"
    by blast
  from r k show "\<exists>k<length (scores st). scores st ! k = ex \<and>
               submitScore now uid mv st =
                 (Inr \<lparr>status = 200, message = ''New best score updated!'',
                       res_moves = mv, res_completedAt = now, improved = True\<rparr>,
                  st\<lparr>scores := (scores st)[k := ex\<lparr>score_moves := mv, completedAt := now\<rparr>]\<rparr>)"
    by auto
  from a have "userId (?f ex) = uid"
    using findOne_Some [of uid "scores st" ex] by simp
  with a findOne_saveExisting [of uid "scores st" ex ?f]
  show "findOne uid (scores (snd (submitScore now uid mv st))) = Some (?f ex)"
    by (simp add: r)
next
  fix ex
  assume "findOne uid (scores st) = Some ex \<and> score_moves ex \<le> mv"
  with assms show "submitScore now uid mv st =
              (Inr \<lparr>status = 200, message = ''Score submitted, but not your best'',
                    res_moves = score_moves ex, res_completedAt = completedAt ex,
                    improved = False\<rparr>,
               st)"
    by (simp add: submitScore_def)
qed

text \<open>
  In the example store: a first score for David, a better score for Bob, and a worse one
  for Bob.
\<close>

theorem submitScore_cases_witness:
  "fst (submitScore 5000 4 12 exampleDb) =
     Inr \<lparr>status = 201, message = ''Score submitted successfully!'',
          res_moves = 12, res_completedAt = 5000, improved = True\<rparr> \<and>
   scores (snd (submitScore 5000 4 12 exampleDb)) =
     scores exampleDb @
       [\<lparr>userId = 4, score_moves = 12, completedAt = 5000,
         gameConfiguration = [3, 6, 4, 2, 5, 8, 1, 7, 9]\<rparr>] \<and>
   findOne 2 (scores (snd (submitScore 5000 2 5 exampleDb))) =
     Some \<lparr>userId = 2, score_moves = 5, completedAt = 5000,
           gameConfiguration = [3, 6, 4, 2, 5, 8, 1, 7, 9]\<rparr> \<and>
   submitScore 5000 2 15 exampleDb =
     (Inr \<lparr>status = 200, message = ''Score submitted, but not your best'',
           res_moves = 10, res_completedAt = 3000, improved = False\<rparr>, exampleDb)"
proof -
  let ?bob = "\<lparr>userId = 2, score_moves = 10, completedAt = 3000,
                gameConfiguration = [3, 6, 4, 2, 5, 8, 1, 7, 9]\<rparr>"
  have u4: "users exampleDb 4 =
      Some \<lparr>user_name = ''David Patel'', user_email = ''cs22a4004@iiitdm.ac.in''\<rparr>"
    and u2: "users exampleDb 2 =
      Some \<lparr>user_name = ''Bob Sharma'', user_email = ''me21a2002@iiitdm.ac.in''\<rparr>"
    by (simp_all add: exampleDb_def)
  have f4: "findOne 4 (scores exampleDb) = None"
    and f2: "findOne 2 (scores exampleDb) = Some ?bob"
    by (simp_all add: exampleDb_def findOne_def)
  have new: "submitScore 5000 4 12 exampleDb =
      (Inr \<lparr>status = 201, message = ''Score submitted successfully!'',
            res_moves = 12, res_completedAt = 5000, improved = True\<rparr>,
       exampleDb\<lparr>scores := scores exampleDb @
            [\<lparr>userId = 4, score_moves = 12, completedAt = 5000,
              gameConfiguration = [3, 6, 4, 2, 5, 8, 1, 7, 9]\<rparr>]\<rparr>)"
    using submitScore_cases [of 12 exampleDb 4 _ 5000, OF _ u4] f4 by simp
  have upd: "findOne 2 (scores (snd (submitScore 5000 2 5 exampleDb))) =
      Some (?bob\<lparr>score_moves := 5, completedAt := 5000\<rparr>)"
    using submitScore_cases [of 5 exampleDb 2 _ 5000, OF _ u2] f2 by simp
  have same: "submitScore 5000 2 15 exampleDb =
      (Inr \<lparr>status = 200, message = ''Score submitted, but not your best'',
            res_moves = score_moves ?bob, res_completedAt = completedAt ?bob,
            improved = False\<rparr>, exampleDb)"
    using submitScore_cases [of 15 exampleDb 2 _ 5000, OF _ u2] f2 by simp
  from new upd same show ?thesis by simp
qed

subsection \<open>What the ledger stores\<close>

lemma submitScore_scores:
  "set (scores (snd (submitScore now uid mv st))) \<subseteq>
     set (scores st) \<union>
     (if 1 \<le> mv then {d. userId d = uid \<and> score_moves d = mv} else {})"
proof -
  let ?f = "\<lambda>d. d\<lparr>score_moves := mv, completedAt := now\<rparr>"
  have "set (saveExisting uid ?f (scores st)) \<subseteq>
      set (scores st) \<union> {d. userId d = uid \<and> score_moves d = mv}"
    using set_saveExisting [of uid ?f "scores st"] by auto
  then show ?thesis
    by (auto simp: submitScore_def split: option.splits)
qed

lemma submitScore_improved:
  assumes "fst (submitScore now uid mv st) = Inr r" and "improved r"
  shows "1 \<le> mv \<and> res_moves r = mv \<and>
         (\<exists>d\<in>set (scores (snd (submitScore now uid mv st))).
            userId d = uid \<and> score_moves d = mv)"
proof -
  let ?f = "\<lambda>d. d\<lparr>score_moves := mv, completedAt := now\<rparr>"
  have upd: "\<exists>d\<in>set (saveExisting uid ?f (scores st)). userId d = uid \<and> score_moves d = mv"
    if "findOne uid (scores st) = Some ex" for ex
  proof -
    have "userId (?f ex) = uid"
      using findOne_Some [OF that] by simp
    from findOne_saveExisting [of uid "scores st" ex ?f, OF that this]
    have "?f ex \<in> set (saveExisting uid ?f (scores st))"
      using findOne_Some by blast
    moreover have "userId (?f ex) = uid \<and> score_moves (?f ex) = mv"
      using findOne_Some [OF that] by simp
    ultimately show ?thesis by blast
  qed
  show ?thesis
    using assms upd
    by (auto simp: submitScore_def split: option.splits if_splits)
qed

text \<open>
  Claim C6, for numbers rather than integers. A submission of less than one move is
  answered with the validation error and the store is returned as it was. A submission
  keeps every stored \<open>moves\<close> at 1 or more. A submission that is answered with
  \<open>improved\<close> true was of at least one move and has stored exactly the submitted number
  for the player. The handler and the schema (\<^verbatim>\<open>type: Number, min: 1\<close>) do not ask for an
  integer: the stored values are integers as long as the submitted ones are.
\<close>

theorem stored_moves_at_least_one:
  "(mv < 1 \<longrightarrow> submitScore now uid mv st = (Inl ValidationError, st)) \<and>
   ((\<forall>d\<in>set (scores st). 1 \<le> score_moves d) \<longrightarrow>
      (\<forall>d\<in>set (scores (snd (submitScore now uid mv st))). 1 \<le> score_moves d)) \<and>
   (mv \<in> \<int> \<and> (\<forall>d\<in>set (scores st). score_moves d \<in> \<int>) \<longrightarrow>
      (\<forall>d\<in>set (scores (snd (submitScore now uid mv st))). score_moves d \<in> \<int>)) \<and>
   (\<forall>r. fst (submitScore now uid mv st) = Inr r \<and> improved r \<longrightarrow>
      1 \<le> mv \<and> res_moves r = mv \<and>
      (\<exists>d\<in>set (scores (snd (submitScore now uid mv st))).
         userId d = uid \<and> score_moves d = mv))"
proof (intro conjI)
  show "mv < 1 \<longrightarrow> submitScore now uid mv st = (Inl ValidationError, st)"
    by (simp add: submitScore_def)
  show "(\<forall>d\<in>set (scores st). 1 \<le> score_moves d) \<longrightarrow>
      (\<forall>d\<in>set (scores (snd (submitScore now uid mv st))). 1 \<le> score_moves d)"
    using submitScore_scores [of now uid mv st] by (auto split: if_splits)
  show "mv \<in> \<int> \<and> (\<forall>d\<in>set (scores st). score_moves d \<in> \<int>) \<longrightarrow>
      (\<forall>d\<in>set (scores (snd (submitScore now uid mv st))). score_moves d \<in> \<int>)"
    using submitScore_scores [of now uid mv st] by (auto split: if_splits)
  show "\<forall>r. fst (submitScore now uid mv st) = Inr r \<and> improved r \<longrightarrow>
      1 \<le> mv \<and> res_moves r = mv \<and>
      (\<exists>d\<in>set (scores (snd (submitScore now uid mv st))).
         userId d = uid \<and> score_moves d = mv)"
    using submitScore_improved [of now uid mv st] by blast
qed

text \<open>Half a move and no move are rejected; twelve moves are stored.\<close>

theorem stored_moves_at_least_one_witness:
  "submitScore 5000 2 (1 / 2) exampleDb = (Inl ValidationError, exampleDb) \<and>
   submitScore 5000 2 0 exampleDb = (Inl ValidationError, exampleDb) \<and>
   list_all (\<lambda>d. 1 \<le> score_moves d) (scores (snd (submitScore 5000 4 12 exampleDb))) \<and>
   list_all (\<lambda>d. score_moves d \<in> \<int>) (scores (snd (submitScore 5000 4 12 exampleDb)))"
proof -
  have a: "\<forall>d\<in>set (scores exampleDb). 1 \<le> score_moves d"
    and b: "\<forall>d\<in>set (scores exampleDb). score_moves d \<in> \<int>"
    by (simp_all add: exampleDb_def)
  have c: "(12::rat) \<in> \<int>" by simp
  from stored_moves_at_least_one [of "1 / 2" 5000 2 exampleDb]
  have r1: "submitScore 5000 2 (1 / 2) exampleDb = (Inl ValidationError, exampleDb)"
    by simp
  from stored_moves_at_least_one [of 0 5000 2 exampleDb]
  have r2: "submitScore 5000 2 0 exampleDb = (Inl ValidationError, exampleDb)"
    by simp
  from stored_moves_at_least_one [of 12 5000 4 exampleDb] a b c
  have "(\<forall>d\<in>set (scores (snd (submitScore 5000 4 12 exampleDb))). 1 \<le> score_moves d) \<and>
        (\<forall>d\<in>set (scores (snd (submitScore 5000 4 12 exampleDb))). score_moves d \<in> \<int>)"
    by blast
  with r1 r2 show ?thesis by (simp add: list_all_iff)
qed

text \<open>
  Claim C6 as it is written has every stored \<open>moves\<close> an integer. The body
  \<^verbatim>\<open>{"moves": 1.5}\<close> passes \<^verbatim>\<open>!moves || moves < 1\<close> and the schema's \<^verbatim>\<open>min: 1\<close>, and
  the score is stored with one and a half moves.
\<close>

theorem fractional_moves_counterexample:
  "fst (submitScore 5000 4 (3 / 2) exampleDb) =
     Inr \<lparr>status = 201, message = ''Score submitted successfully!'',
          res_moves = 3 / 2, res_completedAt = 5000, improved = True\<rparr> \<and>
   scores (snd (submitScore 5000 4 (3 / 2) exampleDb)) =
     scores exampleDb @
       [\<lparr>userId = 4, score_moves = 3 / 2, completedAt = 5000,
         gameConfiguration = [3, 6, 4, 2, 5, 8, 1, 7, 9]\<rparr>] \<and>
   (3 / 2 :: rat) \<notin> \<int>"
  by (simp add: submitScore_def findOne_def exampleDb_def)

subsection \<open>Every score has its user\<close>

text \<open>Every stored score keeps its user: users are only ever added.\<close>

lemma has_users_empty: "has_users emptyDb"
  by (simp add: has_users_def emptyDb_def)

lemma has_users_register: "has_users st \<Longrightarrow> has_users (st\<lparr>users := (users st)(uid \<mapsto> usr)\<rparr>)"
  by (simp add: has_users_def)

lemma has_users_submitScore:
  assumes "has_users st"
  shows "has_users (snd (submitScore now uid mv st))"
proof -
  have u: "users (snd (submitScore now uid mv st)) = users st"
    by (simp add: submitScore_def split: option.splits)
  have "\<forall>d\<in>set (scores (snd (submitScore now uid mv st))).
      d \<in> set (scores st) \<or> (userId d = uid \<and> users st uid \<noteq> None)"
    using submitScore_scores [of now uid mv st]
    by (auto simp: submitScore_def split: option.splits if_splits)
  with assms show ?thesis
    unfolding has_users_def u by auto
qed

subsection \<open>The ordered collection and its pages\<close>

lemma map_filter_all:
  "\<forall>d\<in>set ds. \<exists>u. m (userId d) = Some u \<Longrightarrow>
     map fst (List.map_filter (\<lambda>d. map_option (Pair d) (m (userId d))) ds) = ds"
  by (induction ds) (auto simp: List.map_filter_simps)

lemma lookupUnwind_fst: "has_users st \<Longrightarrow> map fst (lookupUnwind st) = scores st"
  unfolding lookupUnwind_def has_users_def
  by (rule map_filter_all) auto

lemma lookupUnwind_user:
  "(d, u) \<in> set (lookupUnwind st) \<longleftrightarrow> d \<in> set (scores st) \<and> users st (userId d) = Some u"
  by (force simp: lookupUnwind_def List.map_filter_def image_iff)

lemma sorted_rows_set: "set (sorted_rows st) = set (lookupUnwind st)"
  by (simp add: sorted_rows_def)

lemma sorted_rows_mset:
  "has_users st \<Longrightarrow> mset (map fst (sorted_rows st)) = mset (scores st)"
proof -
  assume h: "has_users st"
  have "mset (map fst (sorted_rows st)) = image_mset fst (mset (lookupUnwind st))"
    by (simp add: sorted_rows_def)
  also have "\<dots> = mset (map fst (lookupUnwind st))" by simp
  finally show ?thesis by (simp add: lookupUnwind_fst [OF h])
qed

lemma sorted_rows_length: "has_users st \<Longrightarrow> length (sorted_rows st) = length (scores st)"
  using sorted_rows_mset [of st] mset_eq_length [of "map fst (sorted_rows st)" "scores st"]
  by simp

lemma sorted_rows_sorted: "sorted (map (\<lambda>r. sortKey (fst r)) (sorted_rows st))"
  by (simp add: sorted_rows_def)

lemma inOrder_sortKey: "inOrder a b \<longleftrightarrow> sortKey a \<le> sortKey b"
  by (auto simp: inOrder_def sortKey_def less_eq_prod_def)

lemma better_sortKey: "better sc d \<longleftrightarrow> sortKey d < sortKey sc"
  by (auto simp: better_def sortKey_def less_prod_def)

lemma sorted_rows_inOrder: "sorted_wrt inOrder (map fst (sorted_rows st))"
proof -
  have "sorted (map sortKey (map fst (sorted_rows st)))"
    using sorted_rows_sorted [of st] by (simp add: comp_def)
  then show ?thesis
    by (simp add: sorted_map sorted_wrt_map inOrder_sortKey [abs_def])
qed

lemma globalEntry_rank: "rank (globalEntry st i) = int i + 1"
  by (simp add: globalEntry_def split: prod.splits)

lemma getLeaderboard_page:
  assumes "1 \<le> page" and "1 \<le> limit"
  shows "getLeaderboard st limit page =
     Inr (map (globalEntry st)
            [nat ((page - 1) * limit) ..<
               min (nat ((page - 1) * limit) + nat limit) (length (sorted_rows st))],
          \<lparr>currentPage = page,
           totalPages = \<lceil>rat_of_nat (length (scores st)) / rat_of_int limit\<rceil>,
           totalScores = length (scores st),
           hasNext = (page * limit < int (length (scores st))),
           hasPrev = (page > 1)\<rparr>)"
proof -
  let ?skip = "(page - 1) * limit"
  let ?rows = "sorted_rows st"
  let ?win = "take (nat limit) (drop (nat ?skip) ?rows)"
  have skip: "0 \<le> ?skip" using assms by simp
  have "\<not> (?skip < 0 \<or> limit \<le> 0)"
    using skip assms(2) by linarith
  then have agg: "aggregate st ?skip limit = Inr ?win"
    unfolding aggregate_def by (rule if_not_P)
  have "map (rankedEntry ?skip) (enumerate 0 ?win) =
        map (globalEntry st) [nat ?skip ..< min (nat ?skip + nat limit) (length ?rows)]"
  proof (rule nth_equalityI)
    show "length (map (rankedEntry ?skip) (enumerate 0 ?win)) =
          length (map (globalEntry st) [nat ?skip ..< min (nat ?skip + nat limit) (length ?rows)])"
      by auto
  next
    fix k
    assume "k < length (map (rankedEntry ?skip) (enumerate 0 ?win))"
    then have k: "k < nat limit" "nat ?skip + k < length ?rows"
      by auto
    then have w: "?win ! k = ?rows ! (nat ?skip + k)" by simp
    have "map (rankedEntry ?skip) (enumerate 0 ?win) ! k = rankedEntry ?skip (k, ?win ! k)"
      using k by (simp add: nth_enumerate_eq)
    also have "\<dots> = globalEntry st (nat ?skip + k)"
      using skip by (simp add: w rankedEntry_def globalEntry_def split: prod.splits)
    also have "\<dots> = map (globalEntry st)
        [nat ?skip ..< min (nat ?skip + nat limit) (length ?rows)] ! k"
      using k by simp
    finally show "map (rankedEntry ?skip) (enumerate 0 ?win) ! k =
        map (globalEntry st) [nat ?skip ..< min (nat ?skip + nat limit) (length ?rows)] ! k" .
  qed
  then show ?thesis
    by (simp add: getLeaderboard_def agg Let_def)
qed


text \<open>
  Claim C2. In a store where every score has its user, the ordered collection holds
  every score once, fewer moves first and the earlier completion first on equal moves.
  For every page and limit from 1 on, the leaderboard is the run of entries of that
  collection from position \<open>(page - 1) * limit\<close>, at most \<open>limit\<close> of them, and the
  rank of an entry is its position in the whole collection, counted from 1, whatever the
  page and the limit.
\<close>

theorem leaderboard_ranks_global:
  assumes "has_users st" and "1 \<le> page" and "1 \<le> limit"
  shows "sorted_wrt inOrder (map fst (sorted_rows st)) \<and>
         mset (map fst (sorted_rows st)) = mset (scores st) \<and>
         (\<exists>pg. getLeaderboard st limit page =
            Inr (map (globalEntry st)
                   [nat ((page - 1) * limit) ..<
                      min (nat ((page - 1) * limit) + nat limit) (length (scores st))], pg)) \<and>
         (\<forall>i. rank (globalEntry st i) = int i + 1)"
proof (intro conjI allI)
  show "sorted_wrt inOrder (map fst (sorted_rows st))"
    by (rule sorted_rows_inOrder)
  show "mset (map fst (sorted_rows st)) = mset (scores st)"
    by (rule sorted_rows_mset [OF assms(1)])
  show "\<exists>pg. getLeaderboard st limit page =
            Inr (map (globalEntry st)
                   [nat ((page - 1) * limit) ..<
                      min (nat ((page - 1) * limit) + nat limit) (length (scores st))], pg)"
    unfolding getLeaderboard_page [OF assms(2,3)] sorted_rows_length [OF assms(1)]
    by blast
  show "rank (globalEntry st i) = int i + 1" for i
    by (rule globalEntry_rank)
qed

text \<open>The example store in pages of two: ranks 1 and 2, then rank 3.\<close>

theorem leaderboard_ranks_global_witness:
  "has_users exampleDb \<and>
   map score_moves (map fst (sorted_rows exampleDb)) = [10, 10, 20] \<and>
   map completedAt (map fst (sorted_rows exampleDb)) = [2000, 3000, 1000] \<and>
   map rank (fst (projr (getLeaderboard exampleDb 2 1))) = [1, 2] \<and>
   map name (fst (projr (getLeaderboard exampleDb 2 1))) = [''Carol Singh'', ''Bob Sharma''] \<and>
   map rank (fst (projr (getLeaderboard exampleDb 2 2))) = [3] \<and>
   map name (fst (projr (getLeaderboard exampleDb 2 2))) = [''Alice Kumar'']"
proof -
  have h: "has_users exampleDb"
    by (simp add: has_users_def exampleDb_def)
  have rows: "sorted_rows exampleDb =
     [(\<lparr>userId = 3, score_moves = 10, completedAt = 2000,
          gameConfiguration = [3, 6, 4, 2, 5, 8, 1, 7, 9]\<rparr>,
       \<lparr>user_name = ''Carol Singh'', user_email = ''ec23b3003@iiitdm.ac.in''\<rparr>),
      (\<lparr>userId = 2, score_moves = 10, completedAt = 3000,
          gameConfiguration = [3, 6, 4, 2, 5, 8, 1, 7, 9]\<rparr>,
       \<lparr>user_name = ''Bob Sharma'', user_email = ''me21a2002@iiitdm.ac.in''\<rparr>),
      (\<lparr>userId = 1, score_moves = 20, completedAt = 1000,
          gameConfiguration = [3, 6, 4, 2, 5, 8, 1, 7, 9]\<rparr>,
       \<lparr>user_name = ''Alice Kumar'', user_email = ''cs22b1001@iiitdm.ac.in''\<rparr>)]"
    by (simp add: sorted_rows_def lookupUnwind_def sortKey_def List.map_filter_def
        less_eq_prod_def exampleDb_def)
  have n: "length (scores exampleDb) = 3"
    by (simp add: exampleDb_def)
  have up: "[0..<2] = [0, 1]" "[2..<3] = [2]"
    by (simp_all add: upt_rec)
  have p1: "fst (projr (getLeaderboard exampleDb 2 1)) = map (globalEntry exampleDb) [0, 1]"
    using leaderboard_ranks_global [OF h, of 1 2] by (auto simp: n up)
  have p2: "fst (projr (getLeaderboard exampleDb 2 2)) = map (globalEntry exampleDb) [2]"
    using leaderboard_ranks_global [OF h, of 2 2] by (auto simp: n up)
  show ?thesis
    by (simp add: h p1 p2 up rows globalEntry_def)
qed

text \<open>
  Claim C4, with the defaults as \<^verbatim>\<open>||\<close> gives them. The limit is 50 and the page is 1
  when the parameter is absent, when \<^verbatim>\<open>parseInt\<close> finds no number in it, and when the
  number is 0; a positive number is taken as it is. For a page and a
  limit from 1 on, the answer holds the rows of the ordered collection from position
  \<open>skip = (page - 1) * limit\<close>, at most \<open>limit\<close> of them, and the metadata are the page,
  the ceiling of the number of scores over the limit, the number of scores, whether
  \<open>page * limit\<close> is below the number of scores, and whether the page is above 1.
\<close>

theorem leaderboard_pagination:
  "leaderboardRoute st qlimit qpage = getLeaderboard st (limitParam qlimit) (pageParam qpage) \<and>
   (parseQuery q = None \<or> parseQuery q = Some 0 \<longrightarrow> limitParam q = 50 \<and> pageParam q = 1) \<and>
   (\<forall>n. parseQuery q = Some n \<and> 0 < n \<longrightarrow> limitParam q = n \<and> pageParam q = n) \<and>
   parseQuery None = None \<and>
   (1 \<le> page \<and> 1 \<le> limit \<longrightarrow>
      (\<exists>entries pg.
         getLeaderboard st limit page = Inr (entries, pg) \<and>
         entries = map (rankedEntry ((page - 1) * limit))
                     (enumerate 0 (take (nat limit)
                        (drop (nat ((page - 1) * limit)) (sorted_rows st)))) \<and>
         entries = map (globalEntry st)
                     [nat ((page - 1) * limit) ..<
                        min (nat ((page - 1) * limit) + nat limit) (length (sorted_rows st))] \<and>
         int (length entries) \<le> limit \<and>
         currentPage pg = page \<and>
         totalPages pg = \<lceil>rat_of_nat (length (scores st)) / rat_of_int limit\<rceil> \<and>
         totalScores pg = length (scores st) \<and>
         hasNext pg = (page * limit < int (length (scores st))) \<and>
         hasPrev pg = (page > 1)))"
proof (intro conjI)
  show "leaderboardRoute st qlimit qpage =
      getLeaderboard st (limitParam qlimit) (pageParam qpage)"
    by (simp add: leaderboardRoute_def)
  show "parseQuery q = None \<or> parseQuery q = Some 0 \<longrightarrow> limitParam q = 50 \<and> pageParam q = 1"
    by (auto simp: limitParam_def pageParam_def orDefault_def)
  show "\<forall>n. parseQuery q = Some n \<and> 0 < n \<longrightarrow> limitParam q = n \<and> pageParam q = n"
    by (auto simp: limitParam_def pageParam_def orDefault_def)
  show "parseQuery None = None"
    by (simp add: parseQuery_def)
next
  show "1 \<le> page \<and> 1 \<le> limit \<longrightarrow>
      (\<exists>entries pg.
         getLeaderboard st limit page = Inr (entries, pg) \<and>
         entries = map (rankedEntry ((page - 1) * limit))
                     (enumerate 0 (take (nat limit)
                        (drop (nat ((page - 1) * limit)) (sorted_rows st)))) \<and>
         entries = map (globalEntry st)
                     [nat ((page - 1) * limit) ..<
                        min (nat ((page - 1) * limit) + nat limit) (length (sorted_rows st))] \<and>
         int (length entries) \<le> limit \<and>
         currentPage pg = page \<and>
         totalPages pg = \<lceil>rat_of_nat (length (scores st)) / rat_of_int limit\<rceil> \<and>
         totalScores pg = length (scores st) \<and>
         hasNext pg = (page * limit < int (length (scores st))) \<and>
         hasPrev pg = (page > 1))"
  proof
  assume a: "1 \<le> page \<and> 1 \<le> limit"
  let ?skip = "(page - 1) * limit"
  let ?win = "take (nat limit) (drop (nat ?skip) (sorted_rows st))"
  let ?pg = "\<lparr>currentPage = page,
           totalPages = \<lceil>rat_of_nat (length (scores st)) / rat_of_int limit\<rceil>,
           totalScores = length (scores st),
           hasNext = (page * limit < int (length (scores st))),
           hasPrev = (page > 1)\<rparr>"
  have "0 \<le> ?skip" using a by simp
  then have "\<not> (?skip < 0 \<or> limit \<le> 0)"
    using a by linarith
  then have agg: "aggregate st ?skip limit = Inr ?win"
    unfolding aggregate_def by (rule if_not_P)
  have r: "getLeaderboard st limit page =
      Inr (map (rankedEntry ?skip) (enumerate 0 ?win), ?pg)"
    by (simp add: getLeaderboard_def agg Let_def)
  have g: "map (rankedEntry ?skip) (enumerate 0 ?win) =
      map (globalEntry st)
        [nat ?skip ..< min (nat ?skip + nat limit) (length (sorted_rows st))]"
    using getLeaderboard_page [of page limit st] a r by simp
  have "length (map (rankedEntry ?skip) (enumerate 0 ?win)) \<le> nat limit"
    by simp
  then have l: "int (length (map (rankedEntry ?skip) (enumerate 0 ?win))) \<le> limit"
    using a by linarith
  show "\<exists>entries pg.
         getLeaderboard st limit page = Inr (entries, pg) \<and>
         entries = map (rankedEntry ((page - 1) * limit))
                     (enumerate 0 (take (nat limit)
                        (drop (nat ((page - 1) * limit)) (sorted_rows st)))) \<and>
         entries = map (globalEntry st)
                     [nat ((page - 1) * limit) ..<
                        min (nat ((page - 1) * limit) + nat limit) (length (sorted_rows st))] \<and>
         int (length entries) \<le> limit \<and>
         currentPage pg = page \<and>
         totalPages pg = \<lceil>rat_of_nat (length (scores st)) / rat_of_int limit\<rceil> \<and>
         totalScores pg = length (scores st) \<and>
         hasNext pg = (page * limit < int (length (scores st))) \<and>
         hasPrev pg = (page > 1)"
    using r g l by (intro exI [of _ "map (rankedEntry ?skip) (enumerate 0 ?win)"] exI [of _ ?pg]) simp
  qed
qed

text \<open>Defaults, and the second page of two over the three scores of the example store.\<close>

theorem leaderboard_pagination_witness:
  "limitParam None = 50 \<and> pageParam None = 1 \<and>
   limitParam (Some ''abc'') = 50 \<and> pageParam (Some ''0'') = 1 \<and>
   limitParam (Some ''2'') = 2 \<and> pageParam (Some '' 2nd'') = 2 \<and>
   map rank (fst (projr (leaderboardRoute exampleDb (Some ''2'') (Some ''2'')))) = [3] \<and>
   snd (projr (leaderboardRoute exampleDb (Some ''2'') (Some ''2''))) =
     \<lparr>currentPage = 2, totalPages = 2, totalScores = 3, hasNext = False, hasPrev = True\<rparr>"
proof -
  note T = leaderboard_pagination [of exampleDb "Some ''2''" "Some ''2''" None 2 2]
  have p: "limitParam (Some ''2'') = 2" "pageParam (Some ''2'') = 2"
    by (simp_all add: parse_defs)
  have n: "length (scores exampleDb) = 3"
    by (simp add: exampleDb_def)
  have c: "\<lceil>(3::rat) / 2\<rceil> = 2"
    by (simp add: ceiling_eq_iff)
  from T obtain entries pg where
    e: "leaderboardRoute exampleDb (Some ''2'') (Some ''2'') = Inr (entries, pg)"
      "entries = map (globalEntry exampleDb)
         [nat ((2 - 1) * 2) ..< min (nat ((2 - 1) * 2) + nat 2) (length (sorted_rows exampleDb))]"
      "currentPage pg = 2" "totalPages pg = 2" "totalScores pg = 3"
      "hasNext pg = False" "hasPrev pg = True"
    by (auto simp: p n c)
  have len: "length (sorted_rows exampleDb) = 3"
    by (simp add: sorted_rows_def lookupUnwind_def List.map_filter_def exampleDb_def)
  have "map rank entries = [3]"
    by (simp add: e(2) len globalEntry_rank upt_rec)
  moreover have "pg = \<lparr>currentPage = 2, totalPages = 2, totalScores = 3,
      hasNext = False, hasPrev = True\<rparr>"
    using e(3-7) by (cases pg) simp
  moreover have "limitParam None = 50 \<and> pageParam None = 1 \<and>
      limitParam (Some ''abc'') = 50 \<and> pageParam (Some ''0'') = 1 \<and>
      limitParam (Some ''2'') = 2 \<and> pageParam (Some '' 2nd'') = 2"
    by (simp add: parse_defs)
  ultimately show ?thesis by (simp add: e(1))
qed

text \<open>
  Claim C4 as it is written has the defaults for every parameter that is not a positive
  number. \<^verbatim>\<open>-5\<close> and \<^verbatim>\<open>-1\<close> are numbers other than zero, so \<^verbatim>\<open>||\<close> keeps them; the
  store then refuses the pipeline and the answer is the internal error.
\<close>

theorem negative_limit_counterexample:
  "limitParam (Some ''-5'') = - 5 \<and> pageParam (Some ''-1'') = - 1 \<and>
   leaderboardRoute exampleDb (Some ''-5'') None = Inl InternalError \<and>
   leaderboardRoute exampleDb None (Some ''-1'') = Inl InternalError"
  by (simp add: leaderboardRoute_def parse_defs getLeaderboard_def aggregate_def)


subsection \<open>The rank of one player\<close>

lemma sorted_three_parts:
  fixes f :: "'a \<Rightarrow> 'k::linorder"
  assumes "sorted (map f ys)"
  shows "ys = filter (\<lambda>y. f y < a) ys @ filter (\<lambda>y. f y = a) ys @ filter (\<lambda>y. a < f y) ys"
  using assms
proof (induction ys)
  case Nil
  show ?case by simp
next
  case (Cons y ys)
  then have le: "\<forall>z\<in>set ys. f y \<le> f z" and s: "sorted (map f ys)"
    by simp_all
  note IH = Cons.IH [OF s]
  let ?A = "filter (\<lambda>z. f z < a) ys"
  let ?B = "filter (\<lambda>z. f z = a) ys"
  let ?C = "filter (\<lambda>z. a < f z) ys"
  consider "f y < a" | "f y = a" | "a < f y" by (rule linorder_cases)
  then show ?case
  proof cases
    case 1
    then have "f y \<noteq> a" "\<not> a < f y" by auto
    with 1 have "filter (\<lambda>z. f z < a) (y # ys) @ filter (\<lambda>z. f z = a) (y # ys) @
        filter (\<lambda>z. a < f z) (y # ys) = y # (?A @ ?B @ ?C)"
      by simp
    also have "\<dots> = y # ys" by (simp only: IH [symmetric])
    finally show ?thesis by (rule sym)
  next
    case 2
    then have "?A = []"
      using le by (auto simp: filter_empty_conv)
    with 2 have "filter (\<lambda>z. f z < a) (y # ys) @ filter (\<lambda>z. f z = a) (y # ys) @
        filter (\<lambda>z. a < f z) (y # ys) = y # (?A @ ?B @ ?C)"
      by simp
    also have "\<dots> = y # ys" by (simp only: IH [symmetric])
    finally show ?thesis by (rule sym)
  next
    case 3
    then have "\<forall>z\<in>set ys. a < f z" using le by auto
    then have "?A = []" "?B = []" "?C = ys"
      by (auto simp: filter_empty_conv filter_id_conv)
    moreover from 3 have "\<not> f y < a" "f y \<noteq> a" by auto
    ultimately show ?thesis using 3 by simp
  qed
qed

lemma sorted_position:
  fixes f :: "'a \<Rightarrow> 'k::linorder"
  assumes "sorted (map f ys)" and "x \<in> set ys"
    and "length (filter (\<lambda>y. f y = f x) ys) = 1"
  shows "length (filter (\<lambda>y. f y < f x) ys) < length ys \<and>
         ys ! length (filter (\<lambda>y. f y < f x) ys) = x \<and>
         (\<forall>i<length ys. f (ys ! i) = f x \<longrightarrow> i = length (filter (\<lambda>y. f y < f x) ys))"
proof -
  let ?A = "filter (\<lambda>y. f y < f x) ys"
  let ?B = "filter (\<lambda>y. f y = f x) ys"
  let ?C = "filter (\<lambda>y. f x < f y) ys"
  have parts: "ys = ?A @ ?B @ ?C"
    by (rule sorted_three_parts [OF assms(1)])
  from assms(3) obtain q where q: "?B = [q]"
    by (cases ?B) auto
  have "x \<in> set ?B" using assms(2) by simp
  with q have B: "?B = [x]" by simp
  have len: "length ys = length ?A + 1 + length ?C"
    using arg_cong [OF parts, of length] B by simp
  have at: "ys ! length ?A = x"
    using arg_cong [OF parts, of "\<lambda>l. l ! length ?A"] B by (simp add: nth_append)
  have uniq: "i = length ?A" if i: "i < length ys" and e: "f (ys ! i) = f x" for i
  proof (rule ccontr)
    assume ne: "i \<noteq> length ?A"
    have nth: "ys ! i = (?A @ ?B @ ?C) ! i" using parts by simp
    show False
    proof (cases "i < length ?A")
      case True
      then have "ys ! i = ?A ! i" using nth by (simp add: nth_append)
      moreover have "?A ! i \<in> set ?A" using True by (rule nth_mem)
      ultimately have "f (ys ! i) < f x" by simp
      with e show False by simp
    next
      case False
      with ne have gt: "length ?A < i" by simp
      then have j: "i - length ?A - 1 < length ?C" using i len by linarith
      have "ys ! i = ?C ! (i - length ?A - 1)"
        using nth gt B by (simp add: nth_append)
      moreover have "?C ! (i - length ?A - 1) \<in> set ?C" using j by (rule nth_mem)
      ultimately have "f x < f (ys ! i)" by simp
      with e show False by simp
    qed
  qed
  from len at uniq show ?thesis by simp
qed

lemma filter_length_mset:
  "mset xs = mset ys \<Longrightarrow> length (filter P xs) = length (filter P ys)"
proof -
  assume "mset xs = mset ys"
  then have "filter_mset P (mset xs) = filter_mset P (mset ys)" by simp
  then have "mset (filter P xs) = mset (filter P ys)" by simp
  then show ?thesis by (rule mset_eq_length)
qed

lemma rows_filter_length:
  assumes "has_users st"
  shows "length (filter (\<lambda>r. P (fst r)) (sorted_rows st)) = length (filter P (scores st))"
proof -
  have "length (filter (\<lambda>r. P (fst r)) (sorted_rows st)) =
        length (filter P (map fst (sorted_rows st)))"
    by (simp add: filter_map comp_def)
  also have "\<dots> = length (filter P (scores st))"
    by (rule filter_length_mset [OF sorted_rows_mset [OF assms]])
  finally show ?thesis .
qed

lemma player_row_position:
  assumes h: "has_users st" and f: "findOne uid (scores st) = Some sc" and u: "untied st sc"
  defines "b \<equiv> length (filter (better sc) (scores st))"
  shows "b < length (sorted_rows st) \<and> fst (sorted_rows st ! b) = sc \<and>
         users st uid = Some (snd (sorted_rows st ! b)) \<and>
         (\<forall>i<length (sorted_rows st).
            score_moves (fst (sorted_rows st ! i)) = score_moves sc \<and>
            completedAt (fst (sorted_rows st ! i)) = completedAt sc \<longrightarrow> i = b)"
proof -
  let ?k = "\<lambda>r :: score \<times> user. sortKey (fst r)"
  from findOne_Some [OF f] have sc: "sc \<in> set (scores st)" "userId sc = uid" by simp_all
  with h obtain usr where usr: "users st uid = Some usr"
    by (auto simp: has_users_def)
  have mem: "(sc, usr) \<in> set (sorted_rows st)"
    using sc usr by (simp add: sorted_rows_set lookupUnwind_user)
  have eqk: "(sortKey d = sortKey sc) =
      (score_moves d = score_moves sc \<and> completedAt d = completedAt sc)" for d
    by (simp add: sortKey_def)
  have ltk: "(sortKey d < sortKey sc) = better sc d" for d
    by (simp add: better_sortKey)
  have one: "length (filter (\<lambda>r. ?k r = ?k (sc, usr)) (sorted_rows st)) = 1"
    using rows_filter_length [OF h, of "\<lambda>d. score_moves d = score_moves sc \<and>
        completedAt d = completedAt sc"] u
    by (simp add: eqk untied_def)
  have bl: "length (filter (\<lambda>r. ?k r < ?k (sc, usr)) (sorted_rows st)) = b"
    using rows_filter_length [OF h, of "better sc"] by (simp add: ltk b_def)
  from sorted_position [of ?k "sorted_rows st" "(sc, usr)", OF sorted_rows_sorted mem one]
  have 1: "b < length (sorted_rows st)" and 2: "sorted_rows st ! b = (sc, usr)"
    and 3: "\<forall>i<length (sorted_rows st).
        sortKey (fst (sorted_rows st ! i)) = sortKey sc \<longrightarrow> i = b"
    unfolding bl by simp_all
  have 4: "fst (sorted_rows st ! b) = sc" "users st uid = Some (snd (sorted_rows st ! b))"
    by (simp_all only: 2 fst_conv snd_conv usr)
  have 5: "\<forall>i<length (sorted_rows st).
            score_moves (fst (sorted_rows st ! i)) = score_moves sc \<and>
            completedAt (fst (sorted_rows st ! i)) = completedAt sc \<longrightarrow> i = b"
    using 3 unfolding eqk .
  from 1 4 5 show ?thesis by blast
qed


lemma getLeaderboard_Inr:
  assumes "getLeaderboard st limit page = Inr (entries, pg)"
  shows "1 \<le> page \<and> 1 \<le> limit"
proof -
  have ok: "\<not> ((page - 1) * limit < 0 \<or> limit \<le> 0)"
    using assms by (auto simp: getLeaderboard_def aggregate_def Let_def split: if_splits)
  then have l: "1 \<le> limit" by simp
  have "1 \<le> page"
  proof (rule ccontr)
    assume "\<not> 1 \<le> page"
    then have "page - 1 < 0" by simp
    with l have "(page - 1) * limit < 0"
      by (simp add: mult_less_0_iff)
    with ok show False by simp
  qed
  with l show ?thesis by simp
qed

lemma globalEntry_fields:
  "entry_moves (globalEntry st i) = score_moves (fst (sorted_rows st ! i)) \<and>
   entry_completedAt (globalEntry st i) = completedAt (fst (sorted_rows st ! i)) \<and>
   name (globalEntry st i) = user_name (snd (sorted_rows st ! i)) \<and>
   email (globalEntry st i) = user_email (snd (sorted_rows st ! i))"
  by (simp add: globalEntry_def split: prod.splits)

text \<open>
  Claim C5, for a player whose score no other score ties in both moves and time of
  completion, in a store where every score has its user. The rank that
  \<^verbatim>\<open>/api/user/score\<close> answers, one more than the number of strictly better scores, is
  the position (from 1) of the player's row in the ordered collection; the leaderboard
  page of limit 1 at that rank holds exactly the player's entry; and every entry of any
  leaderboard page that carries the player's moves and time of completion has that rank.
\<close>

theorem playerRank_matches_leaderboard:
  assumes "has_users st" and "findOne uid (scores st) = Some sc" and "untied st sc"
  shows "\<exists>r usr.
           getPlayerRank st uid = HasScore (score_moves sc) (completedAt sc) r \<and>
           r = 1 + int (length (filter (better sc) (scores st))) \<and>
           1 \<le> r \<and> nat r \<le> length (sorted_rows st) \<and>
           sorted_rows st ! (nat r - 1) = (sc, usr) \<and> users st uid = Some usr \<and>
           globalEntry st (nat r - 1) =
             \<lparr>rank = r, name = user_name usr, email = user_email usr,
              entry_moves = score_moves sc, entry_completedAt = completedAt sc\<rparr> \<and>
           (\<exists>pg. getLeaderboard st 1 r = Inr ([globalEntry st (nat r - 1)], pg)) \<and>
           (\<forall>limit page entries pg e.
              getLeaderboard st limit page = Inr (entries, pg) \<and> e \<in> set entries \<and>
              entry_moves e = score_moves sc \<and> entry_completedAt e = completedAt sc
              \<longrightarrow> rank e = r)"
proof -
  define b where "b = length (filter (better sc) (scores st))"
  define r where "r = 1 + int b"
  let ?rows = "sorted_rows st"
  from player_row_position [OF assms] have
    b: "b < length ?rows" and row: "fst (?rows ! b) = sc"
    and usr: "users st uid = Some (snd (?rows ! b))"
    and uniq: "\<forall>i<length ?rows.
            score_moves (fst (?rows ! i)) = score_moves sc \<and>
            completedAt (fst (?rows ! i)) = completedAt sc \<longrightarrow> i = b"
    unfolding b_def by blast+
  have nr: "nat r - 1 = b" and r1: "1 \<le> r" and rl: "nat r \<le> length ?rows"
    using b by (simp_all add: r_def)
  have gpr: "getPlayerRank st uid = HasScore (score_moves sc) (completedAt sc) r"
    by (simp add: getPlayerRank_def assms(2) Let_def r_def b_def)
  obtain u where pair: "?rows ! b = (sc, u)"
    using row by (cases "?rows ! b") simp
  have usr': "users st uid = Some u"
    using usr by (simp add: pair)
  have ge: "globalEntry st b =
      \<lparr>rank = r, name = user_name u, email = user_email u,
       entry_moves = score_moves sc, entry_completedAt = completedAt sc\<rparr>"
    by (simp add: globalEntry_def pair r_def)
  have "[nat ((r - 1) * 1) ..< min (nat ((r - 1) * 1) + nat 1) (length ?rows)] = [b]"
    using b by (simp add: r_def min_def upt_rec)
  then have page: "\<exists>pg. getLeaderboard st 1 r = Inr ([globalEntry st b], pg)"
    using getLeaderboard_page [of r 1 st] r1 by simp
  have any: "rank e = r"
    if g: "getLeaderboard st limit page = Inr (entries, pg)" and e: "e \<in> set entries"
      and m: "entry_moves e = score_moves sc" and c: "entry_completedAt e = completedAt sc"
    for limit page entries pg e
  proof -
    from getLeaderboard_Inr [OF g] have v: "1 \<le> page" "1 \<le> limit" by simp_all
    from g getLeaderboard_page [OF v, of st]
    have "entries = map (globalEntry st)
        [nat ((page - 1) * limit) ..<
           min (nat ((page - 1) * limit) + nat limit) (length ?rows)]"
      by simp
    with e obtain i where i: "i < length ?rows" "e = globalEntry st i"
      by auto
    from m c have "score_moves (fst (?rows ! i)) = score_moves sc \<and>
        completedAt (fst (?rows ! i)) = completedAt sc"
      by (simp add: i(2) globalEntry_fields)
    with uniq i(1) have "i = b" by blast
    then show ?thesis by (simp add: i(2) globalEntry_rank r_def)
  qed
  have "getPlayerRank st uid = HasScore (score_moves sc) (completedAt sc) r \<and>
           r = 1 + int (length (filter (better sc) (scores st))) \<and>
           1 \<le> r \<and> nat r \<le> length (sorted_rows st) \<and>
           sorted_rows st ! (nat r - 1) = (sc, u) \<and> users st uid = Some u \<and>
           globalEntry st (nat r - 1) =
             \<lparr>rank = r, name = user_name u, email = user_email u,
              entry_moves = score_moves sc, entry_completedAt = completedAt sc\<rparr> \<and>
           (\<exists>pg. getLeaderboard st 1 r = Inr ([globalEntry st (nat r - 1)], pg)) \<and>
           (\<forall>limit page entries pg e.
              getLeaderboard st limit page = Inr (entries, pg) \<and> e \<in> set entries \<and>
              entry_moves e = score_moves sc \<and> entry_completedAt e = completedAt sc
              \<longrightarrow> rank e = r)"
    unfolding nr
  proof (intro conjI)
    show "r = 1 + int (length (filter (better sc) (scores st)))"
      by (simp add: r_def b_def)
    show "\<forall>limit page entries pg e.
              getLeaderboard st limit page = Inr (entries, pg) \<and> e \<in> set entries \<and>
              entry_moves e = score_moves sc \<and> entry_completedAt e = completedAt sc
              \<longrightarrow> rank e = r"
      using any by blast
  qed (rule gpr r1 rl pair usr' ge page)+
  then show ?thesis by blast
qed

text \<open>Alice in the example store has rank 3 both ways.\<close>

theorem playerRank_matches_leaderboard_witness:
  "has_users exampleDb \<and> untied exampleDb (the (findOne 1 (scores exampleDb))) \<and>
   getPlayerRank exampleDb 1 = HasScore 20 1000 3 \<and>
   fst (projr (getLeaderboard exampleDb 1 3)) =
     [\<lparr>rank = 3, name = ''Alice Kumar'', email = ''cs22b1001@iiitdm.ac.in'',
       entry_moves = 20, entry_completedAt = 1000\<rparr>]"
proof -
  let ?alice = "\<lparr>userId = 1, score_moves = 20, completedAt = 1000,
                  gameConfiguration = [3, 6, 4, 2, 5, 8, 1, 7, 9]\<rparr>"
  have h: "has_users exampleDb"
    by (simp add: has_users_def exampleDb_def)
  have f: "findOne 1 (scores exampleDb) = Some ?alice"
    by (simp add: findOne_def exampleDb_def)
  have u: "untied exampleDb ?alice"
    by (simp add: untied_def exampleDb_def)
  have g: "getPlayerRank exampleDb 1 = HasScore 20 1000 3"
    by (simp add: getPlayerRank_def findOne_def better_def exampleDb_def)
  have usr: "users exampleDb 1 =
      Some \<lparr>user_name = ''Alice Kumar'', user_email = ''cs22b1001@iiitdm.ac.in''\<rparr>"
    by (simp add: exampleDb_def)
  from playerRank_matches_leaderboard [OF h f u] obtain r usr' pg where
    1: "getPlayerRank exampleDb 1 = HasScore (score_moves ?alice) (completedAt ?alice) r"
    and 2: "users exampleDb 1 = Some usr'"
    and 3: "globalEntry exampleDb (nat r - 1) =
             \<lparr>rank = r, name = user_name usr', email = user_email usr',
              entry_moves = score_moves ?alice, entry_completedAt = completedAt ?alice\<rparr>"
    and 4: "getLeaderboard exampleDb 1 r = Inr ([globalEntry exampleDb (nat r - 1)], pg)"
    by blast
  from 1 g have r: "r = 3" by simp
  from 2 usr have usr': "usr' = \<lparr>user_name = ''Alice Kumar'',
      user_email = ''cs22b1001@iiitdm.ac.in''\<rparr>" by simp
  from 4 have "fst (projr (getLeaderboard exampleDb 1 3)) = [globalEntry exampleDb (nat r - 1)]"
    by (simp add: r)
  with 3 have "fst (projr (getLeaderboard exampleDb 1 3)) =
     [\<lparr>rank = 3, name = ''Alice Kumar'', email = ''cs22b1001@iiitdm.ac.in'',
       entry_moves = 20, entry_completedAt = 1000\<rparr>]"
    by (simp add: r usr')
  with h u f g show ?thesis by simp
qed

text \<open>
  Claim C5 as it is written is for every player with a score. Alice and Bob finished in
  ten moves at the same millisecond: neither is strictly better than the other, so each
  is told rank 1, while the leaderboard lists them at ranks 1 and 2.
\<close>

theorem tied_rank_counterexample:
  "has_users tiedDb \<and>
   getPlayerRank tiedDb 1 = HasScore 10 1000 1 \<and>
   getPlayerRank tiedDb 2 = HasScore 10 1000 1 \<and>
   fst (projr (getLeaderboard tiedDb 50 1)) =
     [\<lparr>rank = 1, name = ''Alice Kumar'', email = ''cs22b1001@iiitdm.ac.in'',
       entry_moves = 10, entry_completedAt = 1000\<rparr>,
      \<lparr>rank = 2, name = ''Bob Sharma'', email = ''me21a2002@iiitdm.ac.in'',
       entry_moves = 10, entry_completedAt = 1000\<rparr>]"
  by (simp add: has_users_def getPlayerRank_def findOne_def better_def getLeaderboard_def
      aggregate_def sorted_rows_def lookupUnwind_def sortKey_def rankedEntry_def
      List.map_filter_def enumerate_eq_zip less_eq_prod_def tiedDb_def)

end
